theory Spec2Isabelle
  imports Main "HOL-Library.AList"
begin

section \<open>Deployments and the trimming of one deployment's dataset\<close>

text \<open>
  The notebook \<^verbatim>\<open>scripts/Downloading_Data.ipynb\<close> defines \<^verbatim>\<open>trim_overlaps(ds, deployments)\<close>.
  \<^verbatim>\<open>deployments\<close> is a pandas table with one row per deployment and the columns
  \<^verbatim>\<open>deploymentNumber\<close>, \<^verbatim>\<open>deployStart\<close>, \<^verbatim>\<open>deployEnd\<close>; \<^verbatim>\<open>ds\<close> is an xarray dataset along
  the dimension \<^verbatim>\<open>time\<close>, carrying the variable \<^verbatim>\<open>deployment\<close> among others.

  Timestamps are integers: only their order is used, so any order-preserving
  encoding of instants will do (nanoseconds since the epoch, or a calendar day
  written as the numeral yyyymmdd in the examples below). Every row of the table
  has both times present; the relative shift of the start column is the only place
  where the code produces a missing time (NaT), and it is modelled as \<open>None\<close>.
\<close>

type_synonym timestamp = int

record deployment_row =
  deploymentNumber :: int
  deployStart :: timestamp
  deployEnd :: timestamp

text \<open>
  A dataset, for the trimming, is read row by row: one sample per entry of the time
  index, with its timestamp, its value of the variable \<^verbatim>\<open>deployment\<close> and the values
  of all its other variables.
\<close>

record 'a sample =
  time :: timestamp
  deployment :: int
  others :: 'a

text \<open>
  The code defines no exception of its own. Two library failures can occur in
  \<^verbatim>\<open>trim_overlaps\<close>: pandas raises \<^verbatim>\<open>KeyError\<close> when \<^verbatim>\<open>.loc\<close> is given a label that
  is not in the index, and numpy raises \<^verbatim>\<open>IndexError\<close> on \<^verbatim>\<open>.values[0]\<close> of an empty
  column.
\<close>

datatype error = KeyError | IndexError

text \<open>
  \<^verbatim>\<open>deployments.sort_values(by="deploymentNumber")\<close>. Deployment numbers are unique in
  the metadata, so the order of the result is determined; the properties below that
  depend on this order assume the numbers distinct.
\<close>

definition sort_values :: "deployment_row list \<Rightarrow> deployment_row list" where
  "sort_values deployments = sort_key deploymentNumber deployments"

text \<open>
  \<^verbatim>\<open>deployments["deployStart"].shift(-1)\<close>: every entry is replaced by its successor,
  and the last one by a missing value.
\<close>

definition shift :: "timestamp list \<Rightarrow> timestamp option list" where
  "shift column = (case column of [] \<Rightarrow> [] | _ # rest \<Rightarrow> map Some rest @ [None])"

text \<open>
  \<^verbatim>\<open>mask = deployments["deployEnd"] > deployEnd\<close> followed by
  \<^verbatim>\<open>deployments["deployEnd"][mask] = deployEnd[mask]\<close>, for one row: a comparison
  with a missing time is false, so the row is kept as it is. The assignment through
  the column writes into the table, as the comment above it announces. The following
  \<^verbatim>\<open>apply(lambda x: pd.to_datetime(x))\<close> changes the representation of the end times
  and not the instants.
\<close>

fun replace_end :: "deployment_row \<times> timestamp option \<Rightarrow> deployment_row" where
  "replace_end (d, None) = d"
| "replace_end (d, Some next_start) =
     (if deployEnd d > next_start then d\<lparr>deployEnd := next_start\<rparr> else d)"

text \<open>The first half of \<^verbatim>\<open>trim_overlaps\<close>: the table with the corrected end times.\<close>

definition deployment_table :: "deployment_row list \<Rightarrow> deployment_row list" where
  "deployment_table deployments =
     (let sorted_rows = sort_values deployments;
          shifted = shift (map deployStart sorted_rows)
      in map replace_end (zip sorted_rows shifted))"

text \<open>\<^verbatim>\<open>np.unique(ds["deployment"])\<close>: the distinct values, in increasing order.\<close>

definition np_unique :: "int list \<Rightarrow> int list" where
  "np_unique xs = sort (remdups xs)"

text \<open>
  \<^verbatim>\<open>deployments.loc[depNum]\<close> with a list of labels: the rows of each label in the
  order of the labels; a label that no row carries raises \<^verbatim>\<open>KeyError\<close> (pandas 1.0
  and later for a list with some label missing, every version when all are missing).
\<close>

fun loc :: "deployment_row list \<Rightarrow> int list \<Rightarrow> error + deployment_row list" where
  "loc table [] = Inr []"
| "loc table (label # labels) =
     (case filter (\<lambda>d. deploymentNumber d = label) table of
        [] \<Rightarrow> Inl KeyError
      | row # rows \<Rightarrow>
          (case loc table labels of
             Inl e \<Rightarrow> Inl e
           | Inr rest \<Rightarrow> Inr ((row # rows) @ rest)))"

text \<open>
  \<^verbatim>\<open>ds.sel(time=slice(deployStart, deployEnd))\<close>: a slice by labels on the time index.
  On an increasing index the library finds both ends by binary search: the slice
  begins at the first timestamp that is not below the lower label and stops after the
  last one that is not above the upper label, so both labels are included.
\<close>

definition sel_time :: "'a sample list \<Rightarrow> timestamp \<Rightarrow> timestamp \<Rightarrow> 'a sample list" where
  "sel_time ds lower upper =
     takeWhile (\<lambda>s. time s \<le> upper) (dropWhile (\<lambda>s. time s < lower) ds)"

definition trim_overlaps ::
  "'a sample list \<Rightarrow> deployment_row list \<Rightarrow> error + 'a sample list" where
  "trim_overlaps ds deployments =
     (let table = deployment_table deployments;
          depNum = np_unique (map deployment ds)
      in case loc table depNum of
           Inl e \<Rightarrow> Inl e
         | Inr deployInfo \<Rightarrow>
             (case deployInfo of
                [] \<Rightarrow> Inl IndexError
              | row # _ \<Rightarrow> Inr (sel_time ds (deployStart row) (deployEnd row))))"

section \<open>Datasets by variable and the merge of the three sources\<close>

text \<open>
  The merge cells of the second notebook work on three datasets, \<^verbatim>\<open>tele_data\<close>,
  \<^verbatim>\<open>host_data\<close> and \<^verbatim>\<open>inst_data\<close>, through four operations of xarray: reading a
  variable (\<^verbatim>\<open>ds[var]\<close>), \<^verbatim>\<open>broadcast_like\<close>, assigning a variable (\<^verbatim>\<open>ds[var] = ...\<close>)
  and \<^verbatim>\<open>combine_first\<close>. Here a dataset is read column by column: its time index and
  its variables in the order of the dictionary that holds them, each variable an
  array with one entry per timestamp of the index. A missing value (NaN) is \<open>None\<close>.
  The variables modelled are those along \<^verbatim>\<open>time\<close>; the coordinate \<^verbatim>\<open>time\<close> itself
  is in every dataset and is never assigned. The library requires the labels of an
  index to be unique when it realigns data to other labels and raises otherwise; the
  time index of a source is strictly increasing, and the properties of the merge
  assume the timestamps of each source distinct.
\<close>

record 'v dataset =
  time_index :: "timestamp list"
  variables :: "(string \<times> 'v option list) list"

text \<open>A single variable taken out of a dataset, with the index it is labelled by.\<close>

record 'v data_array =
  coord :: "timestamp list"
  vals :: "'v option list"

text \<open>
  Realigning an array to other labels reads it by label: the value stored at the
  timestamp, and a missing value where the array has no such timestamp.
\<close>

definition value_at :: "'v data_array \<Rightarrow> timestamp \<Rightarrow> 'v option" where
  "value_at a t = (case map_of (zip (coord a) (vals a)) t of None \<Rightarrow> None | Some x \<Rightarrow> x)"

text \<open>
  The outer join of two indexes: equal indexes are kept as they are, different ones
  are replaced by their sorted union.
\<close>

definition index_union :: "timestamp list \<Rightarrow> timestamp list \<Rightarrow> timestamp list" where
  "index_union xs ys = (if xs = ys then xs else sort (remdups (xs @ ys)))"

text \<open>
  \<^verbatim>\<open>a.broadcast_like(other["time"])\<close>: both are aligned by an outer join, so the result
  is labelled by the union of the two indexes and is missing wherever \<^verbatim>\<open>a\<close> has no
  label.
\<close>

definition broadcast_like :: "'v data_array \<Rightarrow> timestamp list \<Rightarrow> 'v data_array" where
  "broadcast_like a other_time =
     (let idx = index_union other_time (coord a)
      in \<lparr>coord = idx, vals = map (value_at a) idx\<rparr>)"

text \<open>
  \<^verbatim>\<open>ds[var] = a\<close> updates \<^verbatim>\<open>ds\<close> in place: the array is realigned to the index of
  \<^verbatim>\<open>ds\<close>, which stays as it is, and stored under the name, replacing the variable of
  that name or extending the dictionary. The updated dataset is returned.
\<close>

definition setitem :: "'v dataset \<Rightarrow> string \<Rightarrow> 'v data_array \<Rightarrow> 'v dataset" where
  "setitem ds var a =
     ds\<lparr>variables := AList.update var (map (value_at a) (time_index ds)) (variables ds)\<rparr>"

text \<open>
  One alignment loop,
  \<^verbatim>\<open>for var in donor.variables: if var not in target.variables:
      target[var] = donor[var].broadcast_like(target["time"])\<close>,
  run over the variables of the donor; the target is the state the loop updates.
\<close>

fun broadcast_vars ::
  "timestamp list \<Rightarrow> (string \<times> 'v option list) list \<Rightarrow> 'v dataset \<Rightarrow> 'v dataset" where
  "broadcast_vars donor_time [] target = target"
| "broadcast_vars donor_time ((var, column) # rest) target =
     broadcast_vars donor_time rest
       (if var \<in> set (map fst (variables target)) then target
        else setitem target var
               (broadcast_like \<lparr>coord = donor_time, vals = column\<rparr> (time_index target)))"

definition broadcast_missing :: "'v dataset \<Rightarrow> 'v dataset \<Rightarrow> 'v dataset" where
  "broadcast_missing donor target = broadcast_vars (time_index donor) (variables donor) target"

text \<open>
  An alignment cell is two such loops: the first gives \<open>b\<close> the variables of \<open>a\<close>,
  the second gives \<open>a\<close> the variables of the updated \<open>b\<close>. Both datasets are
  returned as the cell leaves them.
\<close>

definition align_variables :: "'v dataset \<Rightarrow> 'v dataset \<Rightarrow> 'v dataset \<times> 'v dataset" where
  "align_variables a b =
     (let b' = broadcast_missing a b;
          a' = broadcast_missing b' a
      in (a', b'))"

text \<open>The value of a dataset at a variable and a timestamp; missing when it has none.\<close>

definition cell :: "'v dataset \<Rightarrow> string \<Rightarrow> timestamp \<Rightarrow> 'v option" where
  "cell ds var t =
     (case map_of (variables ds) var of
        None \<Rightarrow> None
      | Some column \<Rightarrow> value_at \<lparr>coord = time_index ds, vals = column\<rparr> t)"

definition fillna :: "'v option \<Rightarrow> 'v option \<Rightarrow> 'v option" where
  "fillna x y = (case x of Some v \<Rightarrow> Some v | None \<Rightarrow> y)"

text \<open>
  \<^verbatim>\<open>self.combine_first(other)\<close> builds a new dataset: both are realigned by an outer
  join of the indexes and of the variable names, and every missing value of
  \<^verbatim>\<open>self\<close> is filled with the value of \<^verbatim>\<open>other\<close>.
\<close>

definition combine_first :: "'v dataset \<Rightarrow> 'v dataset \<Rightarrow> 'v dataset" where
  "combine_first self other =
     (let idx = index_union (time_index self) (time_index other);
          names = map fst (variables self) @
                  filter (\<lambda>n. n \<notin> set (map fst (variables self))) (map fst (variables other))
      in \<lparr>time_index = idx,
          variables = map (\<lambda>n. (n, map (\<lambda>t. fillna (cell self n t) (cell other n t)) idx)) names\<rparr>)"

text \<open>
  The four merge cells in their order. The notebook keeps the datasets in global
  variables, so the result is the state of all five variables after the last cell:
  the three sources as the alignment loops leave them, the intermediate
  \<^verbatim>\<open>tele_host\<close> and the merged \<^verbatim>\<open>data\<close>.
\<close>

record 'v merge_state =
  tele_data :: "'v dataset"
  host_data :: "'v dataset"
  inst_data :: "'v dataset"
  tele_host :: "'v dataset"
  data :: "'v dataset"

definition merge_cells :: "'v dataset \<Rightarrow> 'v dataset \<Rightarrow> 'v dataset \<Rightarrow> 'v merge_state" where
  "merge_cells tele host inst =
     (let (tele1, host1) = align_variables tele host;
          tele_host0 = combine_first tele1 host1;
          (tele_host1, inst1) = align_variables tele_host0 inst;
          merged = combine_first inst1 tele_host1
      in \<lparr>tele_data = tele1, host_data = host1, inst_data = inst1,
          tele_host = tele_host1, data = merged\<rparr>)"

section \<open>Properties of the deployment table and of the trimming\<close>

subsection \<open>Auxiliary facts\<close>

lemma length_shift: "length (shift xs) = length xs"
  by (cases xs) (simp_all add: shift_def)

lemma nth_shift:
  "i < length xs \<Longrightarrow> shift xs ! i = (if Suc i < length xs then Some (xs ! Suc i) else None)"
  by (cases xs) (auto simp: shift_def nth_append)

lemma sort_values_sorted: "sorted (map deploymentNumber ds) \<Longrightarrow> sort_values ds = ds"
  by (simp add: sort_values_def sort_key_id_if_sorted)

lemma length_sort_values: "length (sort_values ds) = length ds"
  by (simp add: sort_values_def)


lemma length_deployment_table: "length (deployment_table ds) = length ds"
  by (simp add: deployment_table_def Let_def length_shift sort_values_def)

lemma nth_deployment_table:
  assumes "i < length ds"
  shows "deployment_table ds ! i =
     replace_end (sort_values ds ! i,
        if Suc i < length ds then Some (deployStart (sort_values ds ! Suc i)) else None)"
  using assms by (simp add: deployment_table_def Let_def length_shift sort_values_def nth_shift)

lemma replace_end_number: "deploymentNumber (replace_end p) = deploymentNumber (fst p)"
  by (cases p rule: replace_end.cases) simp_all


lemma replace_end_end:
  "deployEnd (replace_end (d, nxt)) =
     (case nxt of None \<Rightarrow> deployEnd d
      | Some next_start \<Rightarrow> if next_start < deployEnd d then next_start else deployEnd d)"
  by (cases nxt) simp_all

lemma numbers_deployment_table:
  "map deploymentNumber (deployment_table ds) = map deploymentNumber (sort_values ds)"
  by (rule nth_equalityI)
     (simp_all add: length_deployment_table length_sort_values nth_deployment_table
        replace_end_number)

lemma number_set_deployment_table:
  "deploymentNumber ` set (deployment_table ds) = deploymentNumber ` set ds"
proof -
  have "set (map deploymentNumber (deployment_table ds)) = set (map deploymentNumber (sort_values ds))"
    by (simp only: numbers_deployment_table)
  then show ?thesis by (simp add: sort_values_def)
qed

lemma filter_Cons_find: "filter P xs = y # ys \<Longrightarrow> find P xs = Some y"
  by (induction xs) (auto split: if_splits)

lemma loc_error: "loc table labels = Inl e \<Longrightarrow> e = KeyError"
  by (induction labels arbitrary: e) (auto split: list.splits sum.splits)

lemma loc_KeyError:
  "\<exists>l\<in>set labels. l \<notin> deploymentNumber ` set table \<Longrightarrow> loc table labels = Inl KeyError"
proof (induction labels)
  case Nil
  then show ?case by simp
next
  case (Cons l ls)
  show ?case
  proof (cases "filter (\<lambda>d. deploymentNumber d = l) table")
    case Nil
    then show ?thesis by simp
  next
    case (Cons row rows)
    then have "row \<in> set (filter (\<lambda>d. deploymentNumber d = l) table)" by simp
    then have "l \<in> deploymentNumber ` set table" by auto
    with Cons.prems have "\<exists>l\<in>set ls. l \<notin> deploymentNumber ` set table" by auto
    then have "loc table ls = Inl KeyError" by (rule Cons.IH)
    with Cons show ?thesis by simp
  qed
qed

lemma loc_known:
  "\<forall>l\<in>set labels. l \<in> deploymentNumber ` set table \<Longrightarrow> \<exists>rows. loc table labels = Inr rows"
proof (induction labels)
  case Nil
  then show ?case by simp
next
  case (Cons l ls)
  then obtain rest where "loc table ls = Inr rest" by auto
  moreover from Cons.prems obtain d where "d \<in> set table" "deploymentNumber d = l" by auto
  then have "filter (\<lambda>d. deploymentNumber d = l) table \<noteq> []"
    by (auto simp: filter_empty_conv)
  ultimately show ?case by (auto split: list.splits)
qed

lemma loc_first:
  assumes "loc table (l # ls) = Inr rows"
  shows "\<exists>row rest. rows = row # rest \<and> find (\<lambda>d. deploymentNumber d = l) table = Some row"
  using assms by (auto split: list.splits sum.splits dest: filter_Cons_find)

lemma takeWhile_upper_filter:
  "sorted (map time ds) \<Longrightarrow>
   takeWhile (\<lambda>s. time s \<le> upper) ds = filter (\<lambda>s. time s \<le> upper) ds"
proof (induction ds)
  case Nil
  then show ?case by simp
next
  case (Cons s ds)
  show ?case
  proof (cases "time s \<le> upper")
    case True
    with Cons show ?thesis by simp
  next
    case False
    with Cons.prems have "\<forall>x\<in>set ds. \<not> time x \<le> upper" by auto
    then have "filter (\<lambda>s. time s \<le> upper) ds = []" by (simp add: filter_empty_conv)
    with False show ?thesis by simp
  qed
qed

lemma dropWhile_lower_filter:
  "sorted (map time ds) \<Longrightarrow>
   dropWhile (\<lambda>s. time s < lower) ds = filter (\<lambda>s. lower \<le> time s) ds"
proof (induction ds)
  case Nil
  then show ?case by simp
next
  case (Cons s ds)
  show ?case
  proof (cases "time s < lower")
    case True
    with Cons show ?thesis by simp
  next
    case False
    with Cons.prems have "\<forall>x\<in>set ds. lower \<le> time x" by auto
    then have "filter (\<lambda>s. lower \<le> time s) ds = ds" by (simp add: filter_id_conv)
    with False show ?thesis by simp
  qed
qed

lemma sel_time_filter:
  assumes "sorted (map time ds)"
  shows "sel_time ds lower upper = filter (\<lambda>s. lower \<le> time s \<and> time s \<le> upper) ds"
proof -
  have "sorted (map time (filter (\<lambda>s. lower \<le> time s) ds))"
    using assms by (simp add: sorted_filter)
  then have "sel_time ds lower upper =
      filter (\<lambda>s. time s \<le> upper) (filter (\<lambda>s. lower \<le> time s) ds)"
    using assms by (simp add: sel_time_def dropWhile_lower_filter takeWhile_upper_filter)
  then show ?thesis by (simp add: conj_commute)
qed

lemma set_np_unique: "set (np_unique xs) = set xs"
  by (simp add: np_unique_def)

lemma np_unique_Cons:
  assumes "xs \<noteq> []"
  shows "\<exists>rest. np_unique xs = Min (set xs) # rest"
proof -
  have ne: "np_unique xs \<noteq> []" using assms set_np_unique [of xs] by auto
  then obtain y ys where ys: "np_unique xs = y # ys" by (cases "np_unique xs") auto
  have "sorted (np_unique xs)" by (simp add: np_unique_def)
  with ys have "\<forall>z\<in>set (np_unique xs). y \<le> z" by auto
  moreover have "y \<in> set (np_unique xs)" using ys by simp
  ultimately have "Min (set (np_unique xs)) = y" by (intro Min_eqI) auto
  then have "Min (set xs) = y" by (simp only: set_np_unique)
  with ys show ?thesis by simp
qed

text \<open>What the trimming returns whenever every deployment number of the samples is known.\<close>

lemma trim_overlaps_result:
  assumes sorted: "sorted (map time ds)"
    and ne: "ds \<noteq> []"
    and known: "\<forall>s\<in>set ds. deployment s \<in> deploymentNumber ` set deployments"
    and row: "find (\<lambda>d. deploymentNumber d = Min (deployment ` set ds))
                (deployment_table deployments) = Some row"
  shows "trim_overlaps ds deployments =
           Inr (filter (\<lambda>s. deployStart row \<le> time s \<and> time s \<le> deployEnd row) ds)"
proof -
  from ne obtain rest where u: "np_unique (map deployment ds) = Min (deployment ` set ds) # rest"
    using np_unique_Cons [of "map deployment ds"] by auto
  have "\<forall>l\<in>set (np_unique (map deployment ds)).
          l \<in> deploymentNumber ` set (deployment_table deployments)"
    using known by (auto simp: set_np_unique number_set_deployment_table)
  then obtain rows where rows: "loc (deployment_table deployments) (np_unique (map deployment ds)) = Inr rows"
    using loc_known by blast
  with u row obtain more where "rows = row # more"
    using loc_first [of "deployment_table deployments" "Min (deployment ` set ds)" rest rows]
    by auto
  with rows show ?thesis
    by (simp add: trim_overlaps_def Let_def sel_time_filter [OF sorted])
qed

lemma trim_overlaps_unknown:
  assumes "s \<in> set ds" and "deployment s \<notin> deploymentNumber ` set deployments"
  shows "trim_overlaps ds deployments = Inl KeyError"
proof -
  have "\<exists>l\<in>set (np_unique (map deployment ds)).
          l \<notin> deploymentNumber ` set (deployment_table deployments)"
    using assms by (auto simp: set_np_unique number_set_deployment_table)
  then have "loc (deployment_table deployments) (np_unique (map deployment ds)) = Inl KeyError"
    by (rule loc_KeyError)
  then show ?thesis by (simp add: trim_overlaps_def Let_def)
qed

lemma deployEnd_table_nth:
  assumes "i < length ds"
  shows "deployEnd (deployment_table ds ! i) =
     (if Suc i < length ds \<and> deployStart (sort_values ds ! Suc i) < deployEnd (sort_values ds ! i)
      then deployStart (sort_values ds ! Suc i) else deployEnd (sort_values ds ! i))"
  using assms by (simp add: nth_deployment_table replace_end_end)


lemma trim_overlaps_Nil: "trim_overlaps [] deployments = Inl IndexError"
  by (simp add: trim_overlaps_def np_unique_def)

lemma find_number_known:
  assumes "n \<in> deploymentNumber ` set deployments"
  shows "\<exists>row. find (\<lambda>d. deploymentNumber d = n) (deployment_table deployments) = Some row"
proof -
  from assms have "n \<in> deploymentNumber ` set (deployment_table deployments)"
    by (simp only: number_set_deployment_table)
  then have "find (\<lambda>d. deploymentNumber d = n) (deployment_table deployments) \<noteq> None"
    by (auto simp: find_None_iff)
  then show ?thesis by auto
qed

lemma find_number_knownD:
  assumes "find (\<lambda>d. deploymentNumber d = n) (deployment_table deployments) = Some row"
  shows "n \<in> deploymentNumber ` set deployments"
proof -
  from assms have "row \<in> set (deployment_table deployments) \<and> deploymentNumber row = n"
    by (auto simp: find_Some_iff in_set_conv_nth)
  then have "n \<in> deploymentNumber ` set (deployment_table deployments)" by auto
  then show ?thesis by (simp only: number_set_deployment_table)
qed

lemma trim_overlaps_InrD:
  assumes "trim_overlaps ds deployments = Inr ds'"
  shows "ds \<noteq> []"
    and "\<forall>s\<in>set ds. deployment s \<in> deploymentNumber ` set deployments"
proof -
  show "ds \<noteq> []" using assms by (auto simp: trim_overlaps_Nil)
  show "\<forall>s\<in>set ds. deployment s \<in> deploymentNumber ` set deployments"
  proof (rule ccontr)
    assume "\<not> ?thesis"
    then obtain s where "s \<in> set ds" "deployment s \<notin> deploymentNumber ` set deployments"
      by auto
    then have "trim_overlaps ds deployments = Inl KeyError" by (rule trim_overlaps_unknown)
    with assms show False by simp
  qed
qed

subsection \<open>The corrected end times\<close>

text \<open>
  Claim C2. For a list of deployments sorted by \<^verbatim>\<open>deploymentNumber\<close>, with the
  numbers unique as they are in the metadata, the table computed by
  \<^verbatim>\<open>trim_overlaps\<close> gives deployment \<open>i\<close> the end time \<open>deployStart\<close> of its
  successor when its own \<open>deployEnd\<close> is later than that start, and its own
  \<open>deployEnd\<close> otherwise, also when it has no successor. For Deployment 1 from
  2016-10-11 to 2017-05-01 and Deployment 2 from 2017-04-20 to 2018-03-28 the end of
  Deployment 1 becomes 2017-04-20.
\<close>

theorem effective_end:
  "(sorted (map deploymentNumber deployments) \<and>
    distinct (map deploymentNumber deployments) \<longrightarrow>
      (\<forall>i<length deployments.
         deployEnd (deployment_table deployments ! i) =
           (if Suc i < length deployments \<and>
               deployStart (deployments ! Suc i) < deployEnd (deployments ! i)
            then deployStart (deployments ! Suc i)
            else deployEnd (deployments ! i)))) \<and>
   deployment_table
     [\<lparr>deploymentNumber = 1, deployStart = 20161011, deployEnd = 20170501\<rparr>,
      \<lparr>deploymentNumber = 2, deployStart = 20170420, deployEnd = 20180328\<rparr>] =
     [\<lparr>deploymentNumber = 1, deployStart = 20161011, deployEnd = 20170420\<rparr>,
      \<lparr>deploymentNumber = 2, deployStart = 20170420, deployEnd = 20180328\<rparr>]"
proof (intro conjI impI allI)
  fix i
  assume "sorted (map deploymentNumber deployments) \<and>
    distinct (map deploymentNumber deployments)" and "i < length deployments"
  then show "deployEnd (deployment_table deployments ! i) =
           (if Suc i < length deployments \<and>
               deployStart (deployments ! Suc i) < deployEnd (deployments ! i)
            then deployStart (deployments ! Suc i)
            else deployEnd (deployments ! i))"
    by (simp add: deployEnd_table_nth sort_values_sorted)
next
  show "deployment_table
     [\<lparr>deploymentNumber = 1, deployStart = 20161011, deployEnd = 20170501\<rparr>,
      \<lparr>deploymentNumber = 2, deployStart = 20170420, deployEnd = 20180328\<rparr>] =
     [\<lparr>deploymentNumber = 1, deployStart = 20161011, deployEnd = 20170420\<rparr>,
      \<lparr>deploymentNumber = 2, deployStart = 20170420, deployEnd = 20180328\<rparr>]"
    by (simp add: deployment_table_def sort_values_def shift_def)
qed

theorem effective_end_witness:
  "sorted (map deploymentNumber
     [\<lparr>deploymentNumber = 1, deployStart = 10, deployEnd = 30\<rparr>,
      \<lparr>deploymentNumber = 2, deployStart = 20, deployEnd = 25\<rparr>,
      \<lparr>deploymentNumber = 3, deployStart = 40, deployEnd = 50\<rparr>]) \<and>
   deployEnd (deployment_table
     [\<lparr>deploymentNumber = 1, deployStart = 10, deployEnd = 30\<rparr>,
      \<lparr>deploymentNumber = 2, deployStart = 20, deployEnd = 25\<rparr>,
      \<lparr>deploymentNumber = 3, deployStart = 40, deployEnd = 50\<rparr>] ! 0) = 20 \<and>
   deployEnd (deployment_table
     [\<lparr>deploymentNumber = 1, deployStart = 10, deployEnd = 30\<rparr>,
      \<lparr>deploymentNumber = 2, deployStart = 20, deployEnd = 25\<rparr>,
      \<lparr>deploymentNumber = 3, deployStart = 40, deployEnd = 50\<rparr>] ! 1) = 25 \<and>
   deployEnd (deployment_table
     [\<lparr>deploymentNumber = 1, deployStart = 10, deployEnd = 30\<rparr>,
      \<lparr>deploymentNumber = 2, deployStart = 20, deployEnd = 25\<rparr>,
      \<lparr>deploymentNumber = 3, deployStart = 40, deployEnd = 50\<rparr>] ! 2) = 50"
  using effective_end [of
     "[\<lparr>deploymentNumber = 1, deployStart = 10, deployEnd = 30\<rparr>,
      \<lparr>deploymentNumber = 2, deployStart = 20, deployEnd = 25\<rparr>,
      \<lparr>deploymentNumber = 3, deployStart = 40, deployEnd = 50\<rparr>]"]
  by simp





subsection \<open>The selection of the samples\<close>

text \<open>
  The slice by labels includes both of its ends. A dataset of deployment 1 with a
  sample exactly at the corrected end 2017-04-20 keeps that sample, so the selection
  is not the half-open interval.
\<close>

theorem trim_half_open_counterexample:
  "trim_overlaps
     [\<lparr>time = 20170419, deployment = 1, others = ()\<rparr>,
      \<lparr>time = 20170420, deployment = 1, others = ()\<rparr>,
      \<lparr>time = 20170421, deployment = 1, others = ()\<rparr>]
     [\<lparr>deploymentNumber = 1, deployStart = 20161011, deployEnd = 20170501\<rparr>,
      \<lparr>deploymentNumber = 2, deployStart = 20170420, deployEnd = 20180328\<rparr>]
   = Inr [\<lparr>time = 20170419, deployment = 1, others = ()\<rparr>,
          \<lparr>time = 20170420, deployment = 1, others = ()\<rparr>] \<and>
   map deployEnd (deployment_table
     [\<lparr>deploymentNumber = 1, deployStart = 20161011, deployEnd = 20170501\<rparr>,
      \<lparr>deploymentNumber = 2, deployStart = 20170420, deployEnd = 20180328\<rparr>])
   = [20170420, 20180328]"
  by (simp add: trim_overlaps_def deployment_table_def sort_values_def shift_def np_unique_def
        sel_time_def)

text \<open>
  Claim C3, amended. For a non-empty dataset with an increasing time index whose
  samples all carry one deployment number, known to the table (\<open>row\<close> is its row,
  and the deployment numbers of the metadata are unique), the trimming returns exactly
  the samples with \<open>deployStart \<le> t \<le> effectiveEnd\<close>, both ends included; the
  samples outside are dropped and the operation does not fail on them.
\<close>

theorem trim_single_deployment:
  assumes "sorted (map time ds)"
    and "ds \<noteq> []"
    and "\<forall>s\<in>set ds. deployment s = n"
    and "find (\<lambda>d. deploymentNumber d = n) (deployment_table deployments) = Some row"
    and "distinct (map deploymentNumber deployments)"
  shows "trim_overlaps ds deployments =
           Inr (filter (\<lambda>s. deployStart row \<le> time s \<and> time s \<le> deployEnd row) ds)"
proof -
  from assms(2) obtain s0 where "s0 \<in> set ds" by (cases ds) auto
  with assms(3) have "deployment ` set ds = {n}" by force
  then have m: "Min (deployment ` set ds) = n" by simp
  have "n \<in> deploymentNumber ` set deployments" using assms(4) by (rule find_number_knownD)
  with assms(3) have "\<forall>s\<in>set ds. deployment s \<in> deploymentNumber ` set deployments" by simp
  with assms(1,2) show ?thesis using assms(4) m by (intro trim_overlaps_result) simp_all
qed

theorem trim_single_deployment_witness:
  "trim_overlaps
     [\<lparr>time = 20161010, deployment = 1, others = ()\<rparr>,
      \<lparr>time = 20161011, deployment = 1, others = ()\<rparr>,
      \<lparr>time = 20170420, deployment = 1, others = ()\<rparr>,
      \<lparr>time = 20170425, deployment = 1, others = ()\<rparr>]
     [\<lparr>deploymentNumber = 1, deployStart = 20161011, deployEnd = 20170501\<rparr>,
      \<lparr>deploymentNumber = 2, deployStart = 20170420, deployEnd = 20180328\<rparr>]
   = Inr [\<lparr>time = 20161011, deployment = 1, others = ()\<rparr>,
          \<lparr>time = 20170420, deployment = 1, others = ()\<rparr>]"
proof -
  have row: "find (\<lambda>d. deploymentNumber d = 1) (deployment_table
     [\<lparr>deploymentNumber = 1, deployStart = 20161011, deployEnd = 20170501\<rparr>,
      \<lparr>deploymentNumber = 2, deployStart = 20170420, deployEnd = 20180328\<rparr>])
    = Some \<lparr>deploymentNumber = 1, deployStart = 20161011, deployEnd = 20170420\<rparr>"
    by (simp add: deployment_table_def sort_values_def shift_def)
  show ?thesis
    using trim_single_deployment [OF _ _ _ row, of
     "[\<lparr>time = 20161010, deployment = 1, others = ()\<rparr>,
      \<lparr>time = 20161011, deployment = 1, others = ()\<rparr>,
      \<lparr>time = 20170420, deployment = 1, others = ()\<rparr>,
      \<lparr>time = 20170425, deployment = 1, others = ()\<rparr>]"]
    by simp
qed

text \<open>
  Claim C6. A dataset with a sample whose deployment number is not in the supplied
  deployments makes the trimming fail: the lookup of the labels raises \<^verbatim>\<open>KeyError\<close>,
  the failure that the specification names UnknownDeploymentError.
\<close>

theorem unknown_deployment_fails:
  assumes "s \<in> set ds" and "deployment s \<notin> deploymentNumber ` set deployments"
  shows "trim_overlaps ds deployments = Inl KeyError"
  using assms by (rule trim_overlaps_unknown)

theorem unknown_deployment_fails_witness:
  "trim_overlaps
     [\<lparr>time = 20190101, deployment = 5, others = ()\<rparr>]
     [\<lparr>deploymentNumber = 1, deployStart = 20161011, deployEnd = 20170501\<rparr>,
      \<lparr>deploymentNumber = 2, deployStart = 20170420, deployEnd = 20180328\<rparr>,
      \<lparr>deploymentNumber = 3, deployStart = 20180324, deployEnd = 20181030\<rparr>,
      \<lparr>deploymentNumber = 4, deployStart = 20181026, deployEnd = 20190407\<rparr>]
   = Inl KeyError"
  by (rule unknown_deployment_fails
        [of "\<lparr>time = 20190101, deployment = 5, others = ()\<rparr>"]) simp_all

text \<open>
  A dataset with samples of two deployments is not refused: the first row of the
  looked-up table decides, and the interval of deployment 1 is applied to all samples.
\<close>

theorem trim_several_counterexample:
  "trim_overlaps
     [\<lparr>time = 20170101, deployment = 1, others = ()\<rparr>,
      \<lparr>time = 20170601, deployment = 2, others = ()\<rparr>]
     [\<lparr>deploymentNumber = 1, deployStart = 20161011, deployEnd = 20170501\<rparr>,
      \<lparr>deploymentNumber = 2, deployStart = 20170420, deployEnd = 20180328\<rparr>]
   = Inr [\<lparr>time = 20170101, deployment = 1, others = ()\<rparr>]"
  by (simp add: trim_overlaps_def deployment_table_def sort_values_def shift_def np_unique_def
        sel_time_def)

text \<open>
  Claim C5, amended. For a dataset with an increasing time index whose samples carry
  more than one deployment number, all of them in the supplied deployments, whose
  numbers are unique, the trimming does not fail: it returns the samples of the whole
  dataset that lie between \<open>deployStart\<close> and the corrected end, both included, of
  the smallest deployment number among the samples.
\<close>

theorem trim_several_deployments:
  assumes "sorted (map time ds)"
    and "s1 \<in> set ds" and "s2 \<in> set ds" and "deployment s1 \<noteq> deployment s2"
    and "\<forall>s\<in>set ds. deployment s \<in> deploymentNumber ` set deployments"
    and "distinct (map deploymentNumber deployments)"
  shows "\<exists>row. find (\<lambda>d. deploymentNumber d = Min (deployment ` set ds))
                  (deployment_table deployments) = Some row \<and>
               trim_overlaps ds deployments =
                 Inr (filter (\<lambda>s. deployStart row \<le> time s \<and> time s \<le> deployEnd row) ds)"
proof -
  from assms(2) have ne: "ds \<noteq> []" by auto
  then have "Min (deployment ` set ds) \<in> deployment ` set ds" by (intro Min_in) simp_all
  with assms(5) have "Min (deployment ` set ds) \<in> deploymentNumber ` set deployments" by auto
  then obtain row where row: "find (\<lambda>d. deploymentNumber d = Min (deployment ` set ds))
                  (deployment_table deployments) = Some row"
    using find_number_known by blast
  with assms(1) ne assms(5) have "trim_overlaps ds deployments =
                 Inr (filter (\<lambda>s. deployStart row \<le> time s \<and> time s \<le> deployEnd row) ds)"
    by (rule trim_overlaps_result)
  with row show ?thesis by blast
qed

theorem trim_several_deployments_witness:
  "trim_overlaps
     [\<lparr>time = 20170101, deployment = 1, others = ()\<rparr>,
      \<lparr>time = 20170419, deployment = 2, others = ()\<rparr>,
      \<lparr>time = 20170601, deployment = 2, others = ()\<rparr>]
     [\<lparr>deploymentNumber = 1, deployStart = 20161011, deployEnd = 20170501\<rparr>,
      \<lparr>deploymentNumber = 2, deployStart = 20170420, deployEnd = 20180328\<rparr>]
   = Inr [\<lparr>time = 20170101, deployment = 1, others = ()\<rparr>,
          \<lparr>time = 20170419, deployment = 2, others = ()\<rparr>]"
  using trim_several_deployments [of
     "[\<lparr>time = 20170101, deployment = 1, others = ()\<rparr>,
      \<lparr>time = 20170419, deployment = 2, others = ()\<rparr>,
      \<lparr>time = 20170601, deployment = 2, others = ()\<rparr>]"
     "\<lparr>time = 20170101, deployment = 1, others = ()\<rparr>"
     "\<lparr>time = 20170419, deployment = 2, others = ()\<rparr>"
     "[\<lparr>deploymentNumber = 1, deployStart = 20161011, deployEnd = 20170501\<rparr>,
      \<lparr>deploymentNumber = 2, deployStart = 20170420, deployEnd = 20180328\<rparr>]"]
  by (simp add: deployment_table_def sort_values_def shift_def)

text \<open>
  A second trimming can differ from the first. A dataset of deployment 1 with all its
  samples outside the interval is trimmed to the empty dataset, and the trimming of
  an empty dataset fails on \<^verbatim>\<open>.values[0]\<close>. A dataset that carries two deployment
  numbers can lose the smaller one in the first trimming, and the second trimming
  then applies another interval.
\<close>

theorem trim_idempotent_counterexample:
  "trim_overlaps
     [\<lparr>time = 20180101, deployment = 1, others = ()\<rparr>]
     [\<lparr>deploymentNumber = 1, deployStart = 20161011, deployEnd = 20170501\<rparr>,
      \<lparr>deploymentNumber = 2, deployStart = 20170420, deployEnd = 20180328\<rparr>]
   = Inr [] \<and>
   trim_overlaps ([] :: unit sample list)
     [\<lparr>deploymentNumber = 1, deployStart = 20161011, deployEnd = 20170501\<rparr>,
      \<lparr>deploymentNumber = 2, deployStart = 20170420, deployEnd = 20180328\<rparr>]
   = Inl IndexError \<and>
   trim_overlaps
     [\<lparr>time = 20170101, deployment = 2, others = ()\<rparr>,
      \<lparr>time = 20170601, deployment = 1, others = ()\<rparr>]
     [\<lparr>deploymentNumber = 1, deployStart = 20161011, deployEnd = 20170501\<rparr>,
      \<lparr>deploymentNumber = 2, deployStart = 20170420, deployEnd = 20180328\<rparr>]
   = Inr [\<lparr>time = 20170101, deployment = 2, others = ()\<rparr>] \<and>
   trim_overlaps
     [\<lparr>time = 20170101, deployment = 2, others = ()\<rparr>]
     [\<lparr>deploymentNumber = 1, deployStart = 20161011, deployEnd = 20170501\<rparr>,
      \<lparr>deploymentNumber = 2, deployStart = 20170420, deployEnd = 20180328\<rparr>]
   = Inr []"
  by (simp add: trim_overlaps_def deployment_table_def sort_values_def shift_def np_unique_def
        sel_time_def)

text \<open>
  Claim C8, amended. When a trimming of a dataset with an increasing time index
  succeeds, against deployments with unique numbers, its result is not empty and the
  smallest deployment number of the result is that of the dataset (as it is whenever
  all samples carry one deployment number), trimming the result again returns the
  result unchanged.
\<close>

theorem trim_idempotent:
  assumes sorted: "sorted (map time ds)"
    and first: "trim_overlaps ds deployments = Inr ds'"
    and ne': "ds' \<noteq> []"
    and same: "Min (deployment ` set ds') = Min (deployment ` set ds)"
    and unique: "distinct (map deploymentNumber deployments)"
  shows "trim_overlaps ds' deployments = Inr ds'"
proof -
  from first have ne: "ds \<noteq> []"
    and known: "\<forall>s\<in>set ds. deployment s \<in> deploymentNumber ` set deployments"
    by (rule trim_overlaps_InrD)+
  from ne have "Min (deployment ` set ds) \<in> deployment ` set ds" by (intro Min_in) simp_all
  with known have "Min (deployment ` set ds) \<in> deploymentNumber ` set deployments" by auto
  then obtain row where row: "find (\<lambda>d. deploymentNumber d = Min (deployment ` set ds))
                  (deployment_table deployments) = Some row"
    using find_number_known by blast
  let ?P = "\<lambda>s. deployStart row \<le> time s \<and> time s \<le> deployEnd row"
  have "trim_overlaps ds deployments = Inr (filter ?P ds)"
    using sorted ne known row by (rule trim_overlaps_result)
  with first have ds': "ds' = filter ?P ds" by simp
  then have sorted': "sorted (map time ds')" using sorted by (simp add: sorted_filter)
  have known': "\<forall>s\<in>set ds'. deployment s \<in> deploymentNumber ` set deployments"
    using known ds' by simp
  have row': "find (\<lambda>d. deploymentNumber d = Min (deployment ` set ds'))
                  (deployment_table deployments) = Some row"
    using row same by simp
  have "trim_overlaps ds' deployments = Inr (filter ?P ds')"
    using sorted' ne' known' row' by (rule trim_overlaps_result)
  also have "filter ?P ds' = ds'" by (simp add: ds')
  finally show ?thesis .
qed

theorem trim_idempotent_witness:
  "trim_overlaps
     [\<lparr>time = 20161010, deployment = 1, others = ()\<rparr>,
      \<lparr>time = 20161011, deployment = 1, others = ()\<rparr>,
      \<lparr>time = 20170425, deployment = 1, others = ()\<rparr>]
     [\<lparr>deploymentNumber = 1, deployStart = 20161011, deployEnd = 20170501\<rparr>,
      \<lparr>deploymentNumber = 2, deployStart = 20170420, deployEnd = 20180328\<rparr>]
   = Inr [\<lparr>time = 20161011, deployment = 1, others = ()\<rparr>] \<and>
   trim_overlaps
     [\<lparr>time = 20161011, deployment = 1, others = ()\<rparr>]
     [\<lparr>deploymentNumber = 1, deployStart = 20161011, deployEnd = 20170501\<rparr>,
      \<lparr>deploymentNumber = 2, deployStart = 20170420, deployEnd = 20180328\<rparr>]
   = Inr [\<lparr>time = 20161011, deployment = 1, others = ()\<rparr>]"
proof -
  have first: "trim_overlaps
     [\<lparr>time = 20161010, deployment = 1, others = ()\<rparr>,
      \<lparr>time = 20161011, deployment = 1, others = ()\<rparr>,
      \<lparr>time = 20170425, deployment = 1, others = ()\<rparr>]
     [\<lparr>deploymentNumber = 1, deployStart = 20161011, deployEnd = 20170501\<rparr>,
      \<lparr>deploymentNumber = 2, deployStart = 20170420, deployEnd = 20180328\<rparr>]
   = Inr [\<lparr>time = 20161011, deployment = 1, others = ()\<rparr>]"
    by (simp add: trim_overlaps_def deployment_table_def sort_values_def shift_def np_unique_def
        sel_time_def)
  from trim_idempotent [OF _ first] first show ?thesis by simp
qed

section \<open>Properties of the merge\<close>

subsection \<open>Auxiliary facts\<close>

lemma value_at_map:
  "value_at \<lparr>coord = idx, vals = map f idx\<rparr> t = (if t \<in> set idx then f t else None)"
  by (simp add: value_at_def map_of_zip_map)

lemma value_at_outside: "t \<notin> set (coord a) \<Longrightarrow> value_at a t = None"
proof -
  assume "t \<notin> set (coord a)"
  then have "t \<notin> fst ` set (zip (coord a) (vals a))" by (auto dest: set_zip_leftD)
  then have "map_of (zip (coord a) (vals a)) t = None" by (simp add: map_of_eq_None_iff)
  then show ?thesis by (simp add: value_at_def)
qed

lemma set_index_union: "set (index_union xs ys) = set xs \<union> set ys"
  by (simp add: index_union_def)

lemma value_at_broadcast_like: "value_at (broadcast_like a other_time) t = value_at a t"
  by (simp add: broadcast_like_def Let_def value_at_map set_index_union value_at_outside)

lemma cell_outside: "t \<notin> set (time_index ds) \<Longrightarrow> cell ds var t = None"
  by (simp add: cell_def value_at_outside split: option.splits)

lemma cell_no_variable: "var \<notin> set (map fst (variables ds)) \<Longrightarrow> cell ds var t = None"
proof -
  assume "var \<notin> set (map fst (variables ds))"
  then have "map_of (variables ds) var = None" by (simp add: map_of_eq_None_iff)
  then show ?thesis by (simp add: cell_def)
qed

lemma time_index_setitem: "time_index (setitem ds var a) = time_index ds"
  by (simp add: setitem_def)

lemma update_new_key: "k \<notin> set (map fst al) \<Longrightarrow> AList.update k v al = al @ [(k, v)]"
  by (induction al) auto

lemma variables_setitem_new:
  "var \<notin> set (map fst (variables ds)) \<Longrightarrow>
   variables (setitem ds var a) = variables ds @ [(var, map (value_at a) (time_index ds))]"
  by (simp add: setitem_def update_new_key)

lemma time_index_broadcast_vars:
  "time_index (broadcast_vars donor_time vs target) = time_index target"
  by (induction donor_time vs target rule: broadcast_vars.induct)
     (simp_all add: time_index_setitem)

text \<open>The loop only appends: the variables of the target stay where they are.\<close>

lemma broadcast_vars_appends:
  "\<exists>added. broadcast_vars donor_time vs target = target\<lparr>variables := variables target @ added\<rparr> \<and>
      set (map fst added) = set (map fst vs) - set (map fst (variables target))"
proof (induction donor_time vs target rule: broadcast_vars.induct)
  case (1 donor_time target)
  then show ?case by simp
next
  case (2 donor_time var column rest target)
  show ?case
  proof (cases "var \<in> set (map fst (variables target))")
    case True
    with "2" obtain added where
      "broadcast_vars donor_time rest target = target\<lparr>variables := variables target @ added\<rparr>"
      "set (map fst added) = set (map fst rest) - set (map fst (variables target))"
      by auto
    with True show ?thesis by (intro exI [of _ added]) auto
  next
    case False
    define new where "new = (var, map (value_at (broadcast_like \<lparr>coord = donor_time, vals = column\<rparr>
                   (time_index target))) (time_index target))"
    define t where "t = target\<lparr>variables := variables target @ [new]\<rparr>"
    from False have t: "setitem target var
        (broadcast_like \<lparr>coord = donor_time, vals = column\<rparr> (time_index target)) = t"
      by (simp add: setitem_def update_new_key t_def new_def)
    from "2" False obtain added where
      added: "broadcast_vars donor_time rest t = t\<lparr>variables := variables t @ added\<rparr>"
        "set (map fst added) = set (map fst rest) - set (map fst (variables t))"
      unfolding t by auto
    have "broadcast_vars donor_time ((var, column) # rest) target =
            target\<lparr>variables := variables target @ (new # added)\<rparr>"
      using added(1) False by (simp add: t) (simp add: t_def)
    moreover have "set (map fst (new # added)) =
            set (map fst ((var, column) # rest)) - set (map fst (variables target))"
      using added(2) False by (auto simp: t_def new_def)
    ultimately show ?thesis by blast
  qed
qed

lemma broadcast_vars_keeps:
  assumes "var \<in> set (map fst (variables target))"
  shows "map_of (variables (broadcast_vars donor_time vs target)) var = map_of (variables target) var"
proof -
  obtain added where "broadcast_vars donor_time vs target = target\<lparr>variables := variables target @ added\<rparr>"
    using broadcast_vars_appends by blast
  moreover from assms have "map_of (variables target) var \<noteq> None"
    by (simp add: map_of_eq_None_iff)
  ultimately show ?thesis by (auto simp: map_add_def split: option.splits)
qed

lemma broadcast_vars_new:
  "var \<notin> set (map fst (variables target)) \<Longrightarrow> map_of vs var = Some column \<Longrightarrow>
   map_of (variables (broadcast_vars donor_time vs target)) var =
     Some (map (value_at \<lparr>coord = donor_time, vals = column\<rparr>) (time_index target))"
proof (induction donor_time vs target rule: broadcast_vars.induct)
  case (1 donor_time target)
  then show ?case by simp
next
  case (2 donor_time v c rest target)
  let ?a = "broadcast_like \<lparr>coord = donor_time, vals = c\<rparr> (time_index target)"
  show ?case
  proof (cases "v = var")
    case True
    with "2.prems" have c: "c = column" by simp
    from True "2.prems" have new: "variables (setitem target v ?a) =
        variables target @ [(var, map (value_at ?a) (time_index target))]"
      by (simp add: variables_setitem_new)
    then have "var \<in> set (map fst (variables (setitem target v ?a)))" by simp
    then have "map_of (variables (broadcast_vars donor_time rest (setitem target v ?a))) var =
        map_of (variables (setitem target v ?a)) var"
      by (rule broadcast_vars_keeps)
    also have "\<dots> = Some (map (value_at ?a) (time_index target))"
    proof -
      from "2.prems"(1) have "map_of (variables target) var = None"
        by (simp add: map_of_eq_None_iff)
      then show ?thesis by (simp add: new map_add_def)
    qed
    finally show ?thesis using True "2.prems"(1) by (simp add: c value_at_broadcast_like)
  next
    case False
    let ?t = "if v \<in> set (map fst (variables target)) then target else setitem target v ?a"
    from False "2.prems" have "var \<notin> set (map fst (variables ?t))"
      by (auto simp: variables_setitem_new)
    moreover from False "2.prems" have "map_of rest var = Some column" by simp
    ultimately have "map_of (variables (broadcast_vars donor_time rest ?t)) var =
        Some (map (value_at \<lparr>coord = donor_time, vals = column\<rparr>) (time_index ?t))"
      by (rule "2.IH")
    then show ?thesis by (simp add: time_index_setitem)
  qed
qed

lemma time_index_broadcast_missing:
  "time_index (broadcast_missing donor target) = time_index target"
  by (simp add: broadcast_missing_def time_index_broadcast_vars)

lemma names_broadcast_missing:
  "set (map fst (variables (broadcast_missing donor target))) =
     set (map fst (variables target)) \<union> set (map fst (variables donor))"
proof -
  obtain added where
    "broadcast_vars (time_index donor) (variables donor) target =
       target\<lparr>variables := variables target @ added\<rparr>"
    "set (map fst added) = set (map fst (variables donor)) - set (map fst (variables target))"
    using broadcast_vars_appends by blast
  then show ?thesis by (auto simp: broadcast_missing_def)
qed

lemma cell_broadcast_missing:
  "cell (broadcast_missing donor target) var t =
     (if var \<in> set (map fst (variables target)) then cell target var t
      else if t \<in> set (time_index target) then cell donor var t else None)"
proof (cases "var \<in> set (map fst (variables target))")
  case True
  then show ?thesis
    by (simp add: cell_def broadcast_missing_def broadcast_vars_keeps time_index_broadcast_vars
          cong: option.case_cong)
next
  case False
  show ?thesis
  proof (cases "map_of (variables donor) var")
    case None
    then have "var \<notin> set (map fst (variables donor))" by (simp add: map_of_eq_None_iff)
    with False have "var \<notin> set (map fst (variables (broadcast_missing donor target)))"
      by (simp only: names_broadcast_missing) simp
    then have "cell (broadcast_missing donor target) var t = None" by (rule cell_no_variable)
    with None False show ?thesis by (simp add: cell_def)
  next
    case (Some column)
    with False have "map_of (variables (broadcast_missing donor target)) var =
        Some (map (value_at \<lparr>coord = time_index donor, vals = column\<rparr>) (time_index target))"
      by (simp add: broadcast_missing_def broadcast_vars_new)
    with Some False show ?thesis
      by (simp add: cell_def time_index_broadcast_missing value_at_map)
  qed
qed

lemma fillna_simps [simp]:
  "fillna None y = y" "fillna (Some v) y = Some v" "fillna x None = x"
  by (simp_all add: fillna_def split: option.splits)

lemma set_time_index_combine_first:
  "set (time_index (combine_first a b)) = set (time_index a) \<union> set (time_index b)"
  by (simp add: combine_first_def Let_def set_index_union)

lemma names_combine_first:
  "set (map fst (variables (combine_first a b))) =
     set (map fst (variables a)) \<union> set (map fst (variables b))"
  by (auto simp: combine_first_def Let_def comp_def)

lemma map_of_tabulate:
  "map_of (map (\<lambda>n. (n, f n)) names) var = (if var \<in> set names then Some (f var) else None)"
  by (induction names) auto

lemma cell_combine_first:
  "cell (combine_first a b) var t = fillna (cell a var t) (cell b var t)"
proof (cases "var \<in> set (map fst (variables a)) \<union> set (map fst (variables b))")
  case False
  then have "cell a var t = None" "cell b var t = None"
    "var \<notin> set (map fst (variables (combine_first a b)))"
    by (simp_all add: cell_no_variable names_combine_first del: set_map)
  then show ?thesis by (simp add: cell_no_variable del: set_map)
next
  case True
  show ?thesis
  proof (cases "t \<in> set (time_index a) \<union> set (time_index b)")
    case False
    then have "cell a var t = None" "cell b var t = None"
      "t \<notin> set (time_index (combine_first a b))"
      by (simp_all add: cell_outside set_time_index_combine_first)
    then show ?thesis by (simp add: cell_outside)
  next
    case t: True
    define names where "names = map fst (variables a) @
        filter (\<lambda>n. n \<notin> set (map fst (variables a))) (map fst (variables b))"
    have vars: "variables (combine_first a b) =
        map (\<lambda>n. (n, map (\<lambda>t. fillna (cell a n t) (cell b n t))
                         (index_union (time_index a) (time_index b)))) names"
      by (simp add: combine_first_def Let_def names_def)
    from True have "var \<in> set names" by (auto simp: names_def)
    then have "map_of (variables (combine_first a b)) var =
      Some (map (\<lambda>t. fillna (cell a var t) (cell b var t))
             (index_union (time_index a) (time_index b)))"
      by (simp only: vars map_of_tabulate) simp
    moreover have "time_index (combine_first a b) = index_union (time_index a) (time_index b)"
      by (simp add: combine_first_def Let_def)
    ultimately show ?thesis using t
      by (simp add: cell_def value_at_map set_index_union)
  qed
qed

lemma cell_align_variables:
  assumes "align_variables a b = (a', b')"
  shows "cell b' var t =
           (if var \<in> set (map fst (variables b)) then cell b var t
            else if t \<in> set (time_index b) then cell a var t else None)"
    and "cell a' var t =
           (if var \<in> set (map fst (variables a)) then cell a var t
            else if t \<in> set (time_index a) then cell b var t else None)"
proof -
  from assms have b': "b' = broadcast_missing a b" and a': "a' = broadcast_missing b' a"
    by (auto simp: align_variables_def Let_def)
  show "cell b' var t =
           (if var \<in> set (map fst (variables b)) then cell b var t
            else if t \<in> set (time_index b) then cell a var t else None)"
    by (simp only: b' cell_broadcast_missing)
  have "cell a' var t =
           (if var \<in> set (map fst (variables a)) then cell a var t
            else if t \<in> set (time_index a) then cell b' var t else None)"
    by (simp only: a' cell_broadcast_missing)
  moreover have "var \<notin> set (map fst (variables a)) \<Longrightarrow> cell b' var t = cell b var t"
    by (simp add: b' cell_broadcast_missing cell_no_variable del: set_map)
  ultimately show "cell a' var t =
           (if var \<in> set (map fst (variables a)) then cell a var t
            else if t \<in> set (time_index a) then cell b var t else None)"
    by simp
qed

lemma cell_combine_aligned:
  assumes "align_variables a b = (a', b')"
  shows "cell (combine_first a' b') var t = fillna (cell a var t) (cell b var t)"
    and "cell (combine_first b' a') var t = fillna (cell b var t) (cell a var t)"
proof -
  note c = cell_align_variables [OF assms, of var t]
  have na: "var \<notin> set (map fst (variables a)) \<Longrightarrow> cell a var t = None"
    and nb: "var \<notin> set (map fst (variables b)) \<Longrightarrow> cell b var t = None"
    by (auto intro: cell_no_variable)
  show "cell (combine_first a' b') var t = fillna (cell a var t) (cell b var t)"
    using na nb by (cases "cell a var t"; cases "cell b var t")
      (auto simp add: cell_combine_first c simp del: set_map)
  show "cell (combine_first b' a') var t = fillna (cell b var t) (cell a var t)"
    using na nb by (cases "cell a var t"; cases "cell b var t")
      (auto simp add: cell_combine_first c simp del: set_map)
qed

lemma align_variables_appends:
  assumes "align_variables a b = (a', b')"
  shows "\<exists>added_a added_b.
           a' = a\<lparr>variables := variables a @ added_a\<rparr> \<and>
           b' = b\<lparr>variables := variables b @ added_b\<rparr> \<and>
           set (map fst added_a) = set (map fst (variables b)) - set (map fst (variables a)) \<and>
           set (map fst added_b) = set (map fst (variables a)) - set (map fst (variables b))"
proof -
  from assms have b': "b' = broadcast_missing a b" and a': "a' = broadcast_missing b' a"
    by (auto simp: align_variables_def Let_def)
  obtain added_b where b: "b' = b\<lparr>variables := variables b @ added_b\<rparr>"
    "set (map fst added_b) = set (map fst (variables a)) - set (map fst (variables b))"
    unfolding b' broadcast_missing_def using broadcast_vars_appends by blast
  obtain added_a where a: "a' = a\<lparr>variables := variables a @ added_a\<rparr>"
    "set (map fst added_a) = set (map fst (variables b')) - set (map fst (variables a))"
    unfolding a' broadcast_missing_def using broadcast_vars_appends by blast
  have "set (map fst (variables b')) = set (map fst (variables b)) \<union> set (map fst (variables a))"
    by (simp only: b' names_broadcast_missing)
  with a(2) have "set (map fst added_a) = set (map fst (variables b)) - set (map fst (variables a))"
    by auto
  with a(1) b show ?thesis by blast
qed

lemma names_align_variables:
  assumes "align_variables a b = (a', b')"
  shows "set (map fst (variables a')) = set (map fst (variables a)) \<union> set (map fst (variables b))"
    and "set (map fst (variables b')) = set (map fst (variables a)) \<union> set (map fst (variables b))"
proof -
  from assms have b': "b' = broadcast_missing a b" and a': "a' = broadcast_missing b' a"
    by (auto simp: align_variables_def Let_def)
  show 2: "set (map fst (variables b')) = set (map fst (variables a)) \<union> set (map fst (variables b))"
    by (simp only: b' names_broadcast_missing) auto
  have "set (map fst (variables a')) = set (map fst (variables a)) \<union> set (map fst (variables b'))"
    by (simp only: a' names_broadcast_missing)
  with 2 show "set (map fst (variables a')) = set (map fst (variables a)) \<union> set (map fst (variables b))"
    by auto
qed

lemma time_index_align_variables:
  assumes "align_variables a b = (a', b')"
  shows "time_index a' = time_index a" and "time_index b' = time_index b"
  using assms by (auto simp: align_variables_def Let_def time_index_broadcast_missing)

lemma merge_cells_unfold:
  obtains tele1 host1 tele_host1 inst1 where
    "align_variables tele host = (tele1, host1)"
    "align_variables (combine_first tele1 host1) inst = (tele_host1, inst1)"
    "merge_cells tele host inst =
       \<lparr>tele_data = tele1, host_data = host1, inst_data = inst1,
        tele_host = tele_host1, data = combine_first inst1 tele_host1\<rparr>"
proof -
  obtain tele1 host1 where 1: "align_variables tele host = (tele1, host1)"
    by (cases "align_variables tele host")
  obtain tele_host1 inst1 where
    2: "align_variables (combine_first tele1 host1) inst = (tele_host1, inst1)"
    by (cases "align_variables (combine_first tele1 host1) inst")
  from 1 2 have "merge_cells tele host inst =
       \<lparr>tele_data = tele1, host_data = host1, inst_data = inst1,
        tele_host = tele_host1, data = combine_first inst1 tele_host1\<rparr>"
    by (simp add: merge_cells_def Let_def)
  with 1 2 show ?thesis by (rule that)
qed

subsection \<open>The alignment of the variables\<close>

text \<open>
  Claim C10. An alignment cell, run on two datasets with unique timestamps, leaves
  both datasets with the same variable names and with their own time indexes. A
  variable that one dataset has and the other lacks is given to the lacking one by
  labels: at each timestamp of the lacking dataset it has the value of the donor when
  the timestamp is also in the index of the donor, and a missing value otherwise.
\<close>

theorem alignment_broadcasts:
  assumes aligned: "align_variables a b = (a', b')"
    and "distinct (time_index a)" and "distinct (time_index b)"
  shows "set (map fst (variables a')) = set (map fst (variables b')) \<and>
         time_index a' = time_index a \<and> time_index b' = time_index b \<and>
         (\<forall>var. var \<in> set (map fst (variables a)) \<and> var \<notin> set (map fst (variables b)) \<longrightarrow>
            var \<in> set (map fst (variables b')) \<and>
            (\<forall>t\<in>set (time_index b).
               cell b' var t = (if t \<in> set (time_index a) then cell a var t else None))) \<and>
         (\<forall>var. var \<in> set (map fst (variables b)) \<and> var \<notin> set (map fst (variables a)) \<longrightarrow>
            var \<in> set (map fst (variables a')) \<and>
            (\<forall>t\<in>set (time_index a).
               cell a' var t = (if t \<in> set (time_index b) then cell b var t else None)))"
proof -
  note names = names_align_variables [OF aligned]
  note cells = cell_align_variables [OF aligned]
  have 1: "set (map fst (variables a')) = set (map fst (variables b'))"
    by (simp only: names)
  have 2: "time_index a' = time_index a \<and> time_index b' = time_index b"
    using aligned by (simp add: time_index_align_variables)
  have 3: "var \<in> set (map fst (variables b')) \<and>
            (\<forall>t\<in>set (time_index b).
               cell b' var t = (if t \<in> set (time_index a) then cell a var t else None))"
    if "var \<in> set (map fst (variables a)) \<and> var \<notin> set (map fst (variables b))" for var
  proof
    from that show "var \<in> set (map fst (variables b'))" by (simp only: names) simp
    from that show "\<forall>t\<in>set (time_index b).
               cell b' var t = (if t \<in> set (time_index a) then cell a var t else None)"
      by (simp add: cells cell_outside del: set_map)
  qed
  have 4: "var \<in> set (map fst (variables a')) \<and>
            (\<forall>t\<in>set (time_index a).
               cell a' var t = (if t \<in> set (time_index b) then cell b var t else None))"
    if "var \<in> set (map fst (variables b)) \<and> var \<notin> set (map fst (variables a))" for var
  proof
    from that show "var \<in> set (map fst (variables a'))" by (simp only: names) simp
    from that show "\<forall>t\<in>set (time_index a).
               cell a' var t = (if t \<in> set (time_index b) then cell b var t else None)"
      by (simp add: cells cell_outside del: set_map)
  qed
  from 1 2 3 4 show ?thesis by blast
qed

theorem alignment_broadcasts_witness:
  "align_variables
      \<lparr>time_index = [1, 2, 3, 5],
       variables = [(''pCO2_water'', [Some 11, Some 12, Some 13, Some (15::int)]),
                    (''battery'', [Some 9, Some 9, None, Some 7])]\<rparr>
      \<lparr>time_index = [1, 2, 3, 4],
       variables = [(''pCO2_water'', [Some 21, Some 22, Some 23, Some 24])]\<rparr>
    = (\<lparr>time_index = [1, 2, 3, 5],
       variables = [(''pCO2_water'', [Some 11, Some 12, Some 13, Some (15::int)]),
                    (''battery'', [Some 9, Some 9, None, Some 7])]\<rparr>,
      \<lparr>time_index = [1, 2, 3, 4],
       variables = [(''pCO2_water'', [Some 21, Some 22, Some 23, Some 24]),
                    (''battery'', [Some 9, Some 9, None, None])]\<rparr>) \<and>
   cell \<lparr>time_index = [1, 2, 3, 4],
       variables = [(''pCO2_water'', [Some 21, Some 22, Some 23, Some 24]),
                    (''battery'', [Some 9, Some 9, None, None])]\<rparr> ''battery'' 2 = Some (9::int) \<and>
   cell \<lparr>time_index = [1, 2, 3, 4],
       variables = [(''pCO2_water'', [Some 21, Some 22, Some 23, Some 24]),
                    (''battery'', [Some 9, Some 9, None, None])]\<rparr> ''battery'' 4 = (None :: int option)"
proof -
  have h: "align_variables
      \<lparr>time_index = [1, 2, 3, 5],
       variables = [(''pCO2_water'', [Some 11, Some 12, Some 13, Some (15::int)]),
                    (''battery'', [Some 9, Some 9, None, Some 7])]\<rparr>
      \<lparr>time_index = [1, 2, 3, 4],
       variables = [(''pCO2_water'', [Some 21, Some 22, Some 23, Some 24])]\<rparr>
    = (\<lparr>time_index = [1, 2, 3, 5],
       variables = [(''pCO2_water'', [Some 11, Some 12, Some 13, Some (15::int)]),
                    (''battery'', [Some 9, Some 9, None, Some 7])]\<rparr>,
      \<lparr>time_index = [1, 2, 3, 4],
       variables = [(''pCO2_water'', [Some 21, Some 22, Some 23, Some 24]),
                    (''battery'', [Some 9, Some 9, None, None])]\<rparr>)"
    by code_simp
  have c: "cell \<lparr>time_index = [1, 2, 3, 5],
       variables = [(''pCO2_water'', [Some 11, Some 12, Some 13, Some (15::int)]),
                    (''battery'', [Some 9, Some 9, None, Some 7])]\<rparr> ''battery'' 2 = Some 9"
    by code_simp
  from alignment_broadcasts [OF h] c h show ?thesis
    by simp
qed

subsection \<open>The merged values\<close>

text \<open>
  The two calls of \<^verbatim>\<open>combine_first\<close> rank the telemetered data above the
  recovered-host data. With the three sources of the scenario, at \<open>t = 3\<close> the
  recovered-instrument data has no value, the recovered-host data has 23 and the
  telemetered data has 13: the merged value is 13.
\<close>

theorem merge_priority_counterexample:
  "cell (data (merge_cells
      \<lparr>time_index = [1, 2, 3, 4, 5],
       variables = [(''pCO2_water'', [Some 11, Some 12, Some 13, Some 14, Some (15::int)])]\<rparr>
      \<lparr>time_index = [1, 2, 3, 4],
       variables = [(''pCO2_water'', [Some 21, Some 22, Some 23, Some 24])]\<rparr>
      \<lparr>time_index = [1, 2, 4],
       variables = [(''pCO2_water'', [Some 31, Some 32, Some 34])]\<rparr>)) ''pCO2_water'' 3
     = Some 13 \<and>
   cell \<lparr>time_index = [1, 2, 3, 4],
       variables = [(''pCO2_water'', [Some 21, Some 22, Some 23, Some (24::int)])]\<rparr>
     ''pCO2_water'' 3 = Some 23 \<and>
   cell \<lparr>time_index = [1, 2, 4],
       variables = [(''pCO2_water'', [Some 31, Some 32, Some (34::int)])]\<rparr>
     ''pCO2_water'' 3 = None"
  by code_simp

text \<open>
  Claim C1, amended. The ranking of the merge is recovered_inst, then telemetered,
  then recovered_host. For sources with unique timestamps, for every variable and
  timestamp the merged value is the value of the first source in this ranking that
  has a value there, so a source contributes a value only where every source ranked
  above it has none; the merged dataset covers the timestamps and the variables of
  all three sources.
\<close>

theorem merged_value:
  assumes "distinct (time_index tele)" and "distinct (time_index host)"
    and "distinct (time_index inst)"
  shows "cell (data (merge_cells tele host inst)) var t =
     (case cell inst var t of
        Some x \<Rightarrow> Some x
      | None \<Rightarrow> (case cell tele var t of Some x \<Rightarrow> Some x | None \<Rightarrow> cell host var t)) \<and>
   set (time_index (data (merge_cells tele host inst))) =
     set (time_index inst) \<union> set (time_index tele) \<union> set (time_index host) \<and>
   set (map fst (variables (data (merge_cells tele host inst)))) =
     set (map fst (variables inst)) \<union> set (map fst (variables tele)) \<union>
     set (map fst (variables host))"
proof -
  obtain tele1 host1 tele_host1 inst1 where
    1: "align_variables tele host = (tele1, host1)" and
    2: "align_variables (combine_first tele1 host1) inst = (tele_host1, inst1)" and
    m: "merge_cells tele host inst =
       \<lparr>tele_data = tele1, host_data = host1, inst_data = inst1,
        tele_host = tele_host1, data = combine_first inst1 tele_host1\<rparr>"
    by (rule merge_cells_unfold)
  have th: "cell (combine_first tele1 host1) var t = fillna (cell tele var t) (cell host var t)"
    using 1 by (rule cell_combine_aligned(1))
  have "cell (combine_first inst1 tele_host1) var t =
      fillna (cell inst var t) (cell (combine_first tele1 host1) var t)"
    using 2 by (rule cell_combine_aligned(2))
  then have cells: "cell (data (merge_cells tele host inst)) var t =
     (case cell inst var t of
        Some x \<Rightarrow> Some x
      | None \<Rightarrow> (case cell tele var t of Some x \<Rightarrow> Some x | None \<Rightarrow> cell host var t))"
    by (simp add: m th fillna_def)
  have "set (time_index (combine_first inst1 tele_host1)) =
      set (time_index inst) \<union> set (time_index (combine_first tele1 host1))"
    by (simp add: set_time_index_combine_first time_index_align_variables [OF 2])
  then have idx: "set (time_index (data (merge_cells tele host inst))) =
     set (time_index inst) \<union> set (time_index tele) \<union> set (time_index host)"
    by (simp add: m set_time_index_combine_first time_index_align_variables [OF 1] Un_assoc)
  have "set (map fst (variables (combine_first inst1 tele_host1))) =
      set (map fst (variables inst)) \<union> set (map fst (variables (combine_first tele1 host1)))"
    by (simp only: names_combine_first names_align_variables [OF 2]) auto
  also have "set (map fst (variables (combine_first tele1 host1))) =
      set (map fst (variables tele)) \<union> set (map fst (variables host))"
    by (simp only: names_combine_first names_align_variables [OF 1]) auto
  finally have names: "set (map fst (variables (data (merge_cells tele host inst)))) =
     set (map fst (variables inst)) \<union> set (map fst (variables tele)) \<union>
     set (map fst (variables host))"
    by (simp add: m Un_assoc)
  from cells idx names show ?thesis by blast
qed

text \<open>
  In the scenario the values at the timestamps 1, 2 and 4 come from the
  recovered-instrument data and those at 3 and 5 from the telemetered data.
\<close>

theorem merged_value_witness:
  "map (cell (data (merge_cells
      \<lparr>time_index = [1, 2, 3, 4, 5],
       variables = [(''pCO2_water'', [Some 11, Some 12, Some 13, Some 14, Some (15::int)])]\<rparr>
      \<lparr>time_index = [1, 2, 3, 4],
       variables = [(''pCO2_water'', [Some 21, Some 22, Some 23, Some 24])]\<rparr>
      \<lparr>time_index = [1, 2, 4],
       variables = [(''pCO2_water'', [Some 31, Some 32, Some 34])]\<rparr>)) ''pCO2_water'')
     [1, 2, 3, 4, 5]
   = [Some 31, Some 32, Some 13, Some 34, Some 15]"
proof -
  let ?tele = "\<lparr>time_index = [1, 2, 3, 4, 5],
       variables = [(''pCO2_water'', [Some 11, Some 12, Some 13, Some 14, Some (15::int)])]\<rparr>"
  let ?host = "\<lparr>time_index = [1, 2, 3, 4],
       variables = [(''pCO2_water'', [Some 21, Some 22, Some 23, Some (24::int)])]\<rparr>"
  let ?inst = "\<lparr>time_index = [1, 2, 4],
       variables = [(''pCO2_water'', [Some 31, Some 32, Some (34::int)])]\<rparr>"
  have inst: "map (cell ?inst ''pCO2_water'') [1, 2, 3, 4, 5] = [Some 31, Some 32, None, Some 34, None]"
    by code_simp
  have tele: "map (cell ?tele ''pCO2_water'') [1, 2, 3, 4, 5] =
      [Some 11, Some 12, Some 13, Some 14, Some 15]"
    by code_simp
  from merged_value [of ?tele ?host ?inst "''pCO2_water''"] inst tele
  show ?thesis by simp
qed

subsection \<open>What the merge does to the sources\<close>

text \<open>
  The alignment loops assign to the sources themselves. A variable that only the
  telemetered dataset has is added to \<^verbatim>\<open>host_data\<close>, which is no longer the dataset
  that was given.
\<close>

theorem merge_mutates_counterexample:
  "host_data (merge_cells
      \<lparr>time_index = [1, 2, 3, 4, 5],
       variables = [(''pCO2_water'', [Some 11, Some 12, Some 13, Some 14, Some (15::int)]),
                    (''battery'', [Some 9, Some 9, Some 8, Some 8, Some 7])]\<rparr>
      \<lparr>time_index = [1, 2, 3, 4],
       variables = [(''pCO2_water'', [Some 21, Some 22, Some 23, Some 24])]\<rparr>
      \<lparr>time_index = [1, 2, 4],
       variables = [(''pCO2_water'', [Some 31, Some 32, Some 34])]\<rparr>)
   = \<lparr>time_index = [1, 2, 3, 4],
       variables = [(''pCO2_water'', [Some 21, Some 22, Some 23, Some 24]),
                    (''battery'', [Some 9, Some 9, Some 8, Some 8])]\<rparr>"
  by code_simp

text \<open>
  Claim C7, amended. The merge, run on sources with unique timestamps, changes each
  source only by appending: every source keeps its time index and each of its
  variables, at its place and with its values, and receives after them the variables
  that it lacked and another source has. The intermediate \<^verbatim>\<open>tele_host\<close> and the
  merged \<^verbatim>\<open>data\<close> are new datasets.
\<close>

theorem merge_appends_to_sources:
  assumes "distinct (time_index tele)" and "distinct (time_index host)"
    and "distinct (time_index inst)"
  shows "\<exists>added_tele added_host added_inst.
     tele_data (merge_cells tele host inst) = tele\<lparr>variables := variables tele @ added_tele\<rparr> \<and>
     host_data (merge_cells tele host inst) = host\<lparr>variables := variables host @ added_host\<rparr> \<and>
     inst_data (merge_cells tele host inst) = inst\<lparr>variables := variables inst @ added_inst\<rparr> \<and>
     set (map fst added_tele) = set (map fst (variables host)) - set (map fst (variables tele)) \<and>
     set (map fst added_host) = set (map fst (variables tele)) - set (map fst (variables host)) \<and>
     set (map fst added_inst) =
       (set (map fst (variables tele)) \<union> set (map fst (variables host))) -
       set (map fst (variables inst))"
proof -
  obtain tele1 host1 tele_host1 inst1 where
    1: "align_variables tele host = (tele1, host1)" and
    2: "align_variables (combine_first tele1 host1) inst = (tele_host1, inst1)" and
    m: "merge_cells tele host inst =
       \<lparr>tele_data = tele1, host_data = host1, inst_data = inst1,
        tele_host = tele_host1, data = combine_first inst1 tele_host1\<rparr>"
    by (rule merge_cells_unfold)
  from align_variables_appends [OF 1] obtain added_tele added_host where
    a: "tele1 = tele\<lparr>variables := variables tele @ added_tele\<rparr>"
       "host1 = host\<lparr>variables := variables host @ added_host\<rparr>"
       "set (map fst added_tele) = set (map fst (variables host)) - set (map fst (variables tele))"
       "set (map fst added_host) = set (map fst (variables tele)) - set (map fst (variables host))"
    by blast
  from align_variables_appends [OF 2] obtain added_th added_inst where
    b: "inst1 = inst\<lparr>variables := variables inst @ added_inst\<rparr>"
       "set (map fst added_inst) =
          set (map fst (variables (combine_first tele1 host1))) - set (map fst (variables inst))"
    by blast
  have "set (map fst (variables (combine_first tele1 host1))) =
      set (map fst (variables tele)) \<union> set (map fst (variables host))"
    by (simp only: names_combine_first names_align_variables [OF 1]) auto
  with b(2) have "set (map fst added_inst) =
       (set (map fst (variables tele)) \<union> set (map fst (variables host))) -
       set (map fst (variables inst))"
    by simp
  with a b(1) show ?thesis by (simp only: m merge_state.simps) blast
qed

theorem merge_appends_to_sources_witness:
  "time_index (host_data (merge_cells
      \<lparr>time_index = [1, 2, 3, 4, 5],
       variables = [(''pCO2_water'', [Some 11, Some 12, Some 13, Some 14, Some (15::int)]),
                    (''battery'', [Some 9, Some 9, Some 8, Some 8, Some 7])]\<rparr>
      \<lparr>time_index = [1, 2, 3, 4],
       variables = [(''pCO2_water'', [Some 21, Some 22, Some 23, Some 24])]\<rparr>
      \<lparr>time_index = [1, 2, 4],
       variables = [(''pCO2_water'', [Some 31, Some 32, Some 34])]\<rparr>)) = [1, 2, 3, 4] \<and>
   take 1 (variables (host_data (merge_cells
      \<lparr>time_index = [1, 2, 3, 4, 5],
       variables = [(''pCO2_water'', [Some 11, Some 12, Some 13, Some 14, Some (15::int)]),
                    (''battery'', [Some 9, Some 9, Some 8, Some 8, Some 7])]\<rparr>
      \<lparr>time_index = [1, 2, 3, 4],
       variables = [(''pCO2_water'', [Some 21, Some 22, Some 23, Some 24])]\<rparr>
      \<lparr>time_index = [1, 2, 4],
       variables = [(''pCO2_water'', [Some 31, Some 32, Some 34])]\<rparr>)))
     = [(''pCO2_water'', [Some 21, Some 22, Some 23, Some 24])]"
proof -
  let ?tele = "\<lparr>time_index = [1, 2, 3, 4, 5],
       variables = [(''pCO2_water'', [Some 11, Some 12, Some 13, Some 14, Some (15::int)]),
                    (''battery'', [Some 9, Some 9, Some 8, Some 8, Some 7])]\<rparr>"
  let ?host = "\<lparr>time_index = [1, 2, 3, 4],
       variables = [(''pCO2_water'', [Some 21, Some 22, Some 23, Some (24::int)])]\<rparr>"
  let ?inst = "\<lparr>time_index = [1, 2, 4],
       variables = [(''pCO2_water'', [Some 31, Some 32, Some (34::int)])]\<rparr>"
  have "distinct (time_index ?tele)" "distinct (time_index ?host)" "distinct (time_index ?inst)"
    by simp_all
  from merge_appends_to_sources [OF this] obtain added_host where
    "host_data (merge_cells ?tele ?host ?inst) = ?host\<lparr>variables := variables ?host @ added_host\<rparr>"
    by blast
  then show ?thesis by simp
qed

end
